theory Spec2Isabelle
  imports Complex_Main "HOL-Library.Sublist" "HOL-Library.Multiset"
begin

section \<open>CSV ingestion pipeline of the upload page\<close>

text \<open>
  The development embeds the functions of the upload page (\<^verbatim>\<open>parseCSV\<close> with its inner
  \<^verbatim>\<open>findColumn\<close>, and \<^verbatim>\<open>handleUpload\<close> with its inner \<^verbatim>\<open>avg\<close>), together with
  the primitives of the language they call (\<^verbatim>\<open>toLowerCase\<close>, \<^verbatim>\<open>includes\<close>,
  \<^verbatim>\<open>trim\<close>, \<^verbatim>\<open>parseFloat\<close>, addition and division of numbers).
\<close>

subsection \<open>Strings\<close>

text \<open>
  A string of the language is a sequence of 16-bit code units; a code unit is given by its
  number, an integer. \<open>str\<close> turns an ASCII literal into such a string.
\<close>

type_synonym codeunit = int

type_synonym jsstring = "codeunit list"

definition cu :: "char \<Rightarrow> codeunit" where
  "cu c = of_char c"

definition str :: "string \<Rightarrow> jsstring" where
  "str s = map cu s"

text \<open>
  \<^verbatim>\<open>toLowerCase\<close> on the letters \<open>A\<close> to \<open>Z\<close>. The case mapping of code points outside
  ASCII is left out: every other code unit stays as it is. All patterns of the page are
  ASCII, and the lower case of a code point outside ASCII holds no ASCII letter, but for
  U+0130 (\<open>i\<close> followed by U+0307) and U+212A (\<open>k\<close>); no pattern of the page holds a
  \<open>k\<close>, or an \<open>i\<close> at its end or before U+0307.
\<close>

definition toLowerChar :: "codeunit \<Rightarrow> codeunit" where
  "toLowerChar c = (if 65 \<le> c \<and> c \<le> 90 then c + 32 else c)"

definition toLowerCase :: "jsstring \<Rightarrow> jsstring" where
  "toLowerCase s = map toLowerChar s"

text \<open>\<^verbatim>\<open>s.includes(p)\<close>: \<open>p\<close> occurs in \<open>s\<close> as a contiguous run of code units.\<close>

fun includes_str :: "jsstring \<Rightarrow> jsstring \<Rightarrow> bool" where
  "includes_str [] p = (p = [])"
| "includes_str (c # cs) p = (prefix p (c # cs) \<or> includes_str cs p)"

text \<open>
  White space and line terminators, as \<^verbatim>\<open>trim\<close> and \<^verbatim>\<open>parseFloat\<close> strip them:
  TAB, LF, VT, FF, CR, the space separators (U+0020, U+00A0, U+1680, U+2000 to U+200A,
  U+202F, U+205F, U+3000), the separators U+2028 and U+2029, and U+FEFF.
\<close>

definition isWhiteSpace :: "codeunit \<Rightarrow> bool" where
  "isWhiteSpace c =
     (c \<in> {0x9, 0xA, 0xB, 0xC, 0xD, 0x20, 0xA0, 0x1680, 0x2028, 0x2029, 0x202F, 0x205F,
            0x3000, 0xFEFF}
      \<or> (0x2000 \<le> c \<and> c \<le> 0x200A))"

definition trimStart :: "jsstring \<Rightarrow> jsstring" where
  "trimStart s = dropWhile isWhiteSpace s"

definition trim :: "jsstring \<Rightarrow> jsstring" where
  "trim s = rev (dropWhile isWhiteSpace (rev (dropWhile isWhiteSpace s)))"

subsection \<open>Column resolution\<close>

text \<open>
  \<^verbatim>\<open>keys.find((k) => patterns.some((p) => k.toLowerCase().includes(p.toLowerCase())))\<close>,
  where \<open>keys\<close> is \<^verbatim>\<open>Object.keys(row)\<close>. The result \<^verbatim>\<open>undefined\<close> is \<open>None\<close>.
\<close>

definition matchesAny :: "jsstring list \<Rightarrow> jsstring \<Rightarrow> bool" where
  "matchesAny patterns k = list_ex (\<lambda>p. includes_str (toLowerCase k) (toLowerCase p)) patterns"

definition findColumn :: "jsstring list \<Rightarrow> jsstring list \<Rightarrow> jsstring option" where
  "findColumn keys patterns = List.find (matchesAny patterns) keys"

definition namePatterns :: "jsstring list" where
  "namePatterns = [str ''equipment name'', str ''name'', str ''equipment'']"

definition typePatterns :: "jsstring list" where
  "typePatterns = [str ''type'', str ''equipment type'']"

definition flowPatterns :: "jsstring list" where
  "flowPatterns = [str ''flowrate'', str ''flow rate'', str ''flow'']"

definition pressPatterns :: "jsstring list" where
  "pressPatterns = [str ''pressure'', str ''press'']"

definition tempPatterns :: "jsstring list" where
  "tempPatterns = [str ''temperature'', str ''temp'']"

text \<open>
  The five \<^verbatim>\<open>findColumn\<close> calls of the callback (\<^verbatim>\<open>nameCol\<close> to \<^verbatim>\<open>tempCol\<close>),
  gathered in one record.
\<close>

record ColumnMapping =
  nameCol :: "jsstring option"
  typeCol :: "jsstring option"
  flowCol :: "jsstring option"
  pressCol :: "jsstring option"
  tempCol :: "jsstring option"

definition resolveColumns :: "jsstring list \<Rightarrow> ColumnMapping" where
  "resolveColumns keys =
     \<lparr> nameCol = findColumn keys namePatterns,
       typeCol = findColumn keys typePatterns,
       flowCol = findColumn keys flowPatterns,
       pressCol = findColumn keys pressPatterns,
       tempCol = findColumn keys tempPatterns \<rparr>"

subsection \<open>Numbers\<close>

text \<open>
  A value of the language's number type, a binary64 floating-point number: not-a-number,
  the two infinities, or a finite value, given as the rational it denotes. The two zeros
  are one value.
\<close>

datatype number = NaN | Infinity | NegInfinity | Num rat

definition pow2 :: "int \<Rightarrow> rat" where
  "pow2 e = (if 0 \<le> e then of_int (2 ^ nat e) else 1 / of_int (2 ^ nat (- e)))"

function bitLength :: "int \<Rightarrow> nat" where
  "bitLength n = (if n \<le> 0 then 0 else Suc (bitLength (n div 2)))"
  by pat_completeness auto
termination
  by (relation "measure nat") auto

text \<open>The binary exponent of a positive rational \<open>x\<close>: the \<open>e\<close> with \<open>2^e \<le> x < 2^(e+1)\<close>.\<close>

definition binExponent :: "rat \<Rightarrow> int" where
  "binExponent x =
     (let p = fst (quotient_of x); q = snd (quotient_of x);
          d = int (bitLength p) - int (bitLength q)
      in if pow2 d \<le> x then d else d - 1)"

definition roundHalfEven :: "rat \<Rightarrow> int" where
  "roundHalfEven x =
     (let f = \<lfloor>x\<rfloor>; r = x - of_int f
      in if r < 1 / 2 then f else if 1 / 2 < r then f + 1 else if even f then f else f + 1)"

text \<open>
  Rounding of an exact result to binary64, to nearest with ties to even: 53 significant
  bits, exponents from \<open>-1022\<close> (below that the spacing stays \<open>2^-1074\<close>), and an infinity
  once \<open>2^1024\<close> is reached.
\<close>

definition roundDouble :: "rat \<Rightarrow> number" where
  "roundDouble x =
     (if x = 0 then Num 0
      else
        let a = \<bar>x\<bar>;
            e = max (binExponent a) (- 1022);
            quantum = pow2 (e - 52);
            m = of_int (roundHalfEven (a / quantum)) * quantum
        in if pow2 1024 \<le> m then (if x < 0 then NegInfinity else Infinity)
           else Num (if x < 0 then - m else m))"

text \<open>Truthiness of a number: \<^verbatim>\<open>0\<close> and \<^verbatim>\<open>NaN\<close> are falsy.\<close>

definition truthy :: "number \<Rightarrow> bool" where
  "truthy n = (n \<noteq> NaN \<and> n \<noteq> Num 0)"

text \<open>\<^verbatim>\<open>n || null\<close>\<close>

definition orNull :: "number \<Rightarrow> number option" where
  "orNull n = (if truthy n then Some n else None)"

text \<open>\<^verbatim>\<open>a + b\<close> on numbers: the exact sum of finite values, rounded.\<close>

fun addNum :: "number \<Rightarrow> number \<Rightarrow> number" where
  "addNum NaN _ = NaN"
| "addNum _ NaN = NaN"
| "addNum Infinity NegInfinity = NaN"
| "addNum NegInfinity Infinity = NaN"
| "addNum Infinity _ = Infinity"
| "addNum _ Infinity = Infinity"
| "addNum NegInfinity _ = NegInfinity"
| "addNum _ NegInfinity = NegInfinity"
| "addNum (Num a) (Num b) = roundDouble (a + b)"

text \<open>\<^verbatim>\<open>a / n\<close> for an array length \<open>n\<close>: the exact quotient of a finite value, rounded.\<close>

fun divNum :: "number \<Rightarrow> nat \<Rightarrow> number" where
  "divNum NaN _ = NaN"
| "divNum Infinity _ = Infinity"
| "divNum NegInfinity _ = NegInfinity"
| "divNum (Num a) n =
     (if n = 0 then (if a = 0 then NaN else if 0 < a then Infinity else NegInfinity)
      else roundDouble (a / of_nat n))"

subsection \<open>parseFloat\<close>

definition isDigit :: "codeunit \<Rightarrow> bool" where
  "isDigit c = (48 \<le> c \<and> c \<le> 57)"

definition digitsVal :: "jsstring \<Rightarrow> int" where
  "digitsVal ds = foldl (\<lambda>a c. 10 * a + (c - 48)) 0 ds"

definition pow10 :: "int \<Rightarrow> rat" where
  "pow10 e = (if 0 \<le> e then of_int (10 ^ nat e) else 1 / of_int (10 ^ nat (- e)))"

definition expDigits :: "int \<Rightarrow> jsstring \<Rightarrow> int" where
  "expDigits sg r =
     (let ds = takeWhile isDigit r in if ds = [] then 0 else sg * digitsVal ds)"

text \<open>The exponent part at the head of the text after the mantissa; 0 when there is none.\<close>

definition parseExponent :: "jsstring \<Rightarrow> int" where
  "parseExponent r =
     (case r of
        [] \<Rightarrow> 0
      | c # r' \<Rightarrow>
          if c = cu CHR ''e'' \<or> c = cu CHR ''E'' then
            (case r' of
               [] \<Rightarrow> 0
             | s # r'' \<Rightarrow>
                 if s = cu CHR ''+'' then expDigits 1 r''
                 else if s = cu CHR ''-'' then expDigits (- 1) r''
                 else expDigits 1 r')
          else 0)"

text \<open>
  \<^verbatim>\<open>parseFloat\<close>: leading white space is skipped, the longest prefix that is a decimal
  literal (optional sign; \<^verbatim>\<open>Infinity\<close>, or digits with an optional fraction and an
  optional exponent) gives the value, anything after it is ignored; with no such prefix
  the result is \<^verbatim>\<open>NaN\<close>. The value of the literal is rounded to binary64.
\<close>

definition parseFloat :: "jsstring \<Rightarrow> number" where
  "parseFloat s =
     (let t = trimStart s;
          neg = (case t of [] \<Rightarrow> False | c # _ \<Rightarrow> c = cu CHR ''-'');
          u = (case t of
                 [] \<Rightarrow> t
               | c # r \<Rightarrow> if c = cu CHR ''-'' \<or> c = cu CHR ''+'' then r else t)
      in if prefix (str ''Infinity'') u then (if neg then NegInfinity else Infinity)
         else
           let ip = takeWhile isDigit u;
               r1 = dropWhile isDigit u;
               fp = (case r1 of
                       [] \<Rightarrow> []
                     | c # r \<Rightarrow> if c = cu CHR ''.'' then takeWhile isDigit r else []);
               r2 = (case r1 of
                       [] \<Rightarrow> []
                     | c # r \<Rightarrow> if c = cu CHR ''.'' then dropWhile isDigit r else r1)
           in if ip = [] \<and> fp = [] then NaN
              else
                let m = of_int (digitsVal (ip @ fp)) / of_int (10 ^ length fp)
                          * pow10 (parseExponent r2)
                in roundDouble (if neg then - m else m))"

subsection \<open>Row normalisation and filtering\<close>

text \<open>
  A parsed CSV record (\<^verbatim>\<open>Record<string, string>\<close>) is an association list; its keys
  in order are \<^verbatim>\<open>Object.keys(row)\<close>, and \<^verbatim>\<open>row[k]\<close> is \<open>map_of row k\<close>, with
  \<open>None\<close> for \<^verbatim>\<open>undefined\<close>.
\<close>

type_synonym RawRecord = "(jsstring \<times> jsstring) list"

record ParsedRow =
  equipment_name :: jsstring
  equipment_type :: jsstring
  flowrate :: "number option"
  pressure :: "number option"
  temperature :: "number option"

text \<open>\<^verbatim>\<open>col ? row[col]?.trim() || 'Unknown' : 'Unknown'\<close>; the empty string is falsy.\<close>

definition textField :: "RawRecord \<Rightarrow> jsstring option \<Rightarrow> jsstring" where
  "textField row col =
     (case col of
        None \<Rightarrow> str ''Unknown''
      | Some k \<Rightarrow>
          if k = [] then str ''Unknown''
          else (case map_of row k of
                  None \<Rightarrow> str ''Unknown''
                | Some v \<Rightarrow> if trim v = [] then str ''Unknown'' else trim v))"

text \<open>
  \<^verbatim>\<open>col ? parseFloat(row[col]) || null : null\<close>; \<^verbatim>\<open>parseFloat(undefined)\<close> is
  \<^verbatim>\<open>NaN\<close>.
\<close>

definition numField :: "RawRecord \<Rightarrow> jsstring option \<Rightarrow> number option" where
  "numField row col =
     (case col of
        None \<Rightarrow> None
      | Some k \<Rightarrow>
          if k = [] then None
          else (case map_of row k of
                  None \<Rightarrow> orNull NaN
                | Some v \<Rightarrow> orNull (parseFloat v)))"

text \<open>The object literal returned by the \<^verbatim>\<open>data.map\<close> callback, from the five columns.\<close>

definition normalizeRow :: "ColumnMapping \<Rightarrow> RawRecord \<Rightarrow> ParsedRow" where
  "normalizeRow cols row =
     \<lparr> equipment_name = textField row (nameCol cols),
       equipment_type = textField row (typeCol cols),
       flowrate = numField row (flowCol cols),
       pressure = numField row (pressCol cols),
       temperature = numField row (tempCol cols) \<rparr>"

text \<open>
  The \<^verbatim>\<open>data.map\<close> callback: the columns are resolved from the keys of the row at
  hand, for every row.
\<close>

definition mapRow :: "RawRecord \<Rightarrow> ParsedRow" where
  "mapRow row = (let keys = map fst row in normalizeRow (resolveColumns keys) row)"

text \<open>The predicate of the \<^verbatim>\<open>filter\<close> that follows the \<^verbatim>\<open>map\<close>.\<close>

definition retained :: "ParsedRow \<Rightarrow> bool" where
  "retained row =
     (equipment_name row \<noteq> str ''Unknown'' \<or> equipment_type row \<noteq> str ''Unknown'')"

definition mapped :: "RawRecord list \<Rightarrow> ParsedRow list" where
  "mapped data = filter retained (map mapRow data)"

datatype parse_error = InvalidFormat

definition parseCSV :: "RawRecord list \<Rightarrow> parse_error + ParsedRow list" where
  "parseCSV data = (if length (mapped data) = 0 then Inl InvalidFormat else Inr (mapped data))"

subsection \<open>Summary statistics\<close>

text \<open>\<^verbatim>\<open>arr.length > 0 ? arr.reduce((a, b) => a + b, 0) / arr.length : 0\<close>\<close>

definition avg :: "number list \<Rightarrow> number" where
  "avg arr = (if length arr > 0 then divNum (foldl addNum (Num 0) arr) (length arr) else Num 0)"

text \<open>\<^verbatim>\<open>parsedData.filter((d) => d.f !== null).map((d) => d.f!)\<close>\<close>

definition nonNull :: "(ParsedRow \<Rightarrow> number option) \<Rightarrow> ParsedRow list \<Rightarrow> number list" where
  "nonNull f parsedData = map (\<lambda>d. the (f d)) (filter (\<lambda>d. f d \<noteq> None) parsedData)"

text \<open>
  An entry of \<^verbatim>\<open>typeDistribution\<close>: a count, or a text. The object starts as \<^verbatim>\<open>{}\<close>
  and so inherits the properties of the object prototype: for a type named like one of
  them, \<^verbatim>\<open>(typeDistribution[t] || 0) + 1\<close> finds the inherited value, and adding 1 to it
  gives a text, which is stored and to which every later row of that type appends.
  Assigning a text to \<^verbatim>\<open>__proto__\<close> has no effect. Counts stay far below \<open>2^53\<close> and
  are exact.
\<close>

datatype dist_value = Count nat | Text

definition objectPrototypeKeys :: "jsstring list" where
  "objectPrototypeKeys =
     [str ''constructor'', str ''__defineGetter__'', str ''__defineSetter__'',
      str ''hasOwnProperty'', str ''__lookupGetter__'', str ''__lookupSetter__'',
      str ''isPrototypeOf'', str ''propertyIsEnumerable'', str ''toString'',
      str ''valueOf'', str ''__proto__'', str ''toLocaleString'']"

definition countType :: "(jsstring \<rightharpoonup> dist_value) \<Rightarrow> ParsedRow \<Rightarrow> (jsstring \<rightharpoonup> dist_value)" where
  "countType td d =
     (let t = equipment_type d in
      if t = str ''__proto__'' then td
      else (case td t of
              Some (Count c) \<Rightarrow> td(t \<mapsto> Count (c + 1))
            | Some Text \<Rightarrow> td(t \<mapsto> Text)
            | None \<Rightarrow> if t \<in> set objectPrototypeKeys then td(t \<mapsto> Text)
                      else td(t \<mapsto> Count 1)))"

record Summary =
  avgFlowrate :: number
  avgPressure :: number
  avgTemperature :: number
  typeDistribution :: "jsstring \<rightharpoonup> dist_value"

definition computeSummary :: "ParsedRow list \<Rightarrow> Summary" where
  "computeSummary parsedData =
     \<lparr> avgFlowrate = avg (nonNull flowrate parsedData),
       avgPressure = avg (nonNull pressure parsedData),
       avgTemperature = avg (nonNull temperature parsedData),
       typeDistribution = foldl countType Map.empty parsedData \<rparr>"

subsection \<open>The store and the confirmation of an upload\<close>

text \<open>
  The two tables written by \<^verbatim>\<open>handleUpload\<close>. Identifiers and user identities are
  natural numbers, creation times are integers.
\<close>

record Upload =
  upload_id :: nat
  user_id :: nat
  filename :: jsstring
  record_count :: nat
  summary :: Summary
  created_at :: int

record EquipmentRecord =
  owner_upload :: nat
  owner_user :: nat
  reading :: ParsedRow

record Store =
  uploads :: "Upload list"
  equipment_data :: "EquipmentRecord list"

text \<open>
  What the store answers to the calls of one confirmation: whether each call succeeds,
  the identifier it generates for the new upload, and the current time. A call that fails
  returns no data and leaves the store as it was; the client library reports the failure
  in the returned object and does not throw.
\<close>

record Env =
  select_ok :: bool
  delete_ok :: bool
  insert_upload_ok :: bool
  insert_rows_ok :: bool
  new_id :: nat
  now :: int

text \<open>
  \<^verbatim>\<open>from('uploads').select('id').eq('user_id', user.id).order('created_at', {ascending: false})\<close>;
  uploads with equal creation times keep their order in the table.
\<close>

definition userUploads :: "nat \<Rightarrow> Store \<Rightarrow> Upload list" where
  "userUploads uid st = filter (\<lambda>u. user_id u = uid) (uploads st)"

definition mostRecentFirst :: "nat \<Rightarrow> Store \<Rightarrow> Upload list" where
  "mostRecentFirst uid st = sort_key (\<lambda>u. - created_at u) (userUploads uid st)"

definition selectUploads :: "Env \<Rightarrow> nat \<Rightarrow> Store \<Rightarrow> nat list option" where
  "selectUploads env uid st =
     (if select_ok env then Some (map upload_id (mostRecentFirst uid st)) else None)"

text \<open>
  \<^verbatim>\<open>from('uploads').delete().in('id', toDelete)\<close>: only the caller's own uploads can be
  deleted, and the equipment rows of a deleted upload go with it.
\<close>

definition deleteUploads :: "Env \<Rightarrow> nat \<Rightarrow> nat list \<Rightarrow> Store \<Rightarrow> Store" where
  "deleteUploads env uid toDelete st =
     (if delete_ok env
      then \<lparr> uploads = filter (\<lambda>u. \<not> (upload_id u \<in> set toDelete \<and> user_id u = uid)) (uploads st),
             equipment_data =
               filter (\<lambda>e. \<not> (\<exists>u \<in> set (uploads st).
                                  upload_id u = owner_upload e \<and> upload_id u \<in> set toDelete
                                  \<and> user_id u = uid))
                 (equipment_data st) \<rparr>
      else st)"

datatype upload_result = NotStarted | Succeeded nat | UploadError

text \<open>The retention step of \<^verbatim>\<open>handleUpload\<close>: neither call's outcome is inspected.\<close>

definition retentionStep :: "Env \<Rightarrow> nat \<Rightarrow> Store \<Rightarrow> Store" where
  "retentionStep env uid st =
     (case selectUploads env uid st of
        None \<Rightarrow> st
      | Some existingUploads \<Rightarrow>
          if length existingUploads \<ge> 5
          then deleteUploads env uid (drop 4 existingUploads) st
          else st)"

definition handleUpload ::
  "Env \<Rightarrow> nat option \<Rightarrow> jsstring option \<Rightarrow> ParsedRow list \<Rightarrow> Store \<Rightarrow> Store \<times> upload_result" where
  "handleUpload env user file parsedData st =
     (case user of
        None \<Rightarrow> (st, NotStarted)
      | Some uid \<Rightarrow>
          (case file of
             None \<Rightarrow> (st, NotStarted)
           | Some fname \<Rightarrow>
               if length parsedData = 0 then (st, NotStarted)
               else
                 let st1 = retentionStep env uid st in
                 if \<not> insert_upload_ok env then (st1, UploadError)
                 else
                   let uploadData =
                         \<lparr> upload_id = new_id env, user_id = uid, filename = fname,
                           record_count = length parsedData,
                           summary = computeSummary parsedData, created_at = now env \<rparr>;
                       st2 = st1\<lparr>uploads := uploads st1 @ [uploadData]\<rparr>
                   in if \<not> insert_rows_ok env then (st2, UploadError)
                      else
                        (st2\<lparr>equipment_data := equipment_data st2 @
                               map (\<lambda>row. \<lparr> owner_upload = upload_id uploadData,
                                             owner_user = uid, reading = row \<rparr>) parsedData\<rparr>,
                         Succeeded (upload_id uploadData))))"

text \<open>
  The declaration of the table \<^verbatim>\<open>equipment_data\<close>: each column with its type and
  whether it is declared \<^verbatim>\<open>NOT NULL\<close>.
\<close>

record Column =
  col_name :: string
  col_type :: string
  not_null :: bool

definition equipment_data_columns :: "Column list" where
  "equipment_data_columns =
     [\<lparr> col_name = ''id'', col_type = ''UUID'', not_null = True \<rparr>,
      \<lparr> col_name = ''upload_id'', col_type = ''UUID'', not_null = True \<rparr>,
      \<lparr> col_name = ''user_id'', col_type = ''UUID'', not_null = True \<rparr>,
      \<lparr> col_name = ''equipment_name'', col_type = ''TEXT'', not_null = True \<rparr>,
      \<lparr> col_name = ''equipment_type'', col_type = ''TEXT'', not_null = True \<rparr>,
      \<lparr> col_name = ''flowrate'', col_type = ''NUMERIC'', not_null = False \<rparr>,
      \<lparr> col_name = ''pressure'', col_type = ''NUMERIC'', not_null = False \<rparr>,
      \<lparr> col_name = ''temperature'', col_type = ''NUMERIC'', not_null = False \<rparr>,
      \<lparr> col_name = ''created_at'', col_type = ''TIMESTAMP WITH TIME ZONE'',
        not_null = True \<rparr>]"

subsection \<open>The specification's wording, for comparison\<close>

text \<open>
  Column resolution as the specification words it: the synonyms are tried in list order,
  the first synonym that some header contains wins, and the first header in header order
  containing that synonym is selected.
\<close>

fun findColumnBySynonymOrder :: "jsstring list \<Rightarrow> jsstring list \<Rightarrow> jsstring option" where
  "findColumnBySynonymOrder keys [] = None"
| "findColumnBySynonymOrder keys (p # ps) =
     (case List.find (\<lambda>k. includes_str (toLowerCase k) (toLowerCase p)) keys of
        Some k \<Rightarrow> Some k
      | None \<Rightarrow> findColumnBySynonymOrder keys ps)"

text \<open>
  The specification's data flow: the columns are resolved once, from the header list of
  the file, and every record is normalised with that one mapping.
\<close>

definition mappedPerFile :: "jsstring list \<Rightarrow> RawRecord list \<Rightarrow> ParsedRow list" where
  "mappedPerFile headers data =
     (let cols = resolveColumns headers in filter retained (map (normalizeRow cols) data))"

text \<open>
  The specification's average: the sum of the values divided by their count, and 0 when
  there is no value. The sum is taken in the order of the values, from 0, with the
  addition of the language, and the division is the division of the language.
\<close>

definition sumNum :: "number list \<Rightarrow> number" where
  "sumNum vs = foldl addNum (Num 0) vs"

definition meanOf :: "number list \<Rightarrow> number" where
  "meanOf vs = (if vs = [] then Num 0 else divNum (sumNum vs) (length vs))"

text \<open>
  Rationals that are summed without rounding: the exact sum of every initial segment is a
  binary64 value.
\<close>

definition exactlySummable :: "rat list \<Rightarrow> bool" where
  "exactlySummable qs =
     list_all (\<lambda>n. roundDouble (sum_list (take n qs)) = Num (sum_list (take n qs)))
       [0 ..< Suc (length qs)]"

text \<open>A text without leading or trailing white space that is not empty.\<close>

definition trimmedNonEmpty :: "jsstring \<Rightarrow> bool" where
  "trimmedNonEmpty s = (s \<noteq> [] \<and> \<not> isWhiteSpace (hd s) \<and> \<not> isWhiteSpace (last s))"

section \<open>Properties\<close>

subsection \<open>String primitives\<close>

lemma includes_iff: "includes_str s p \<longleftrightarrow> (\<exists>a b. s = a @ p @ b)"
proof (induction s)
  case Nil
  then show ?case by auto
next
  case (Cons c cs)
  show ?case
  proof
    assume "includes_str (c # cs) p"
    then consider "prefix p (c # cs)" | "includes_str cs p" by auto
    then show "\<exists>a b. c # cs = a @ p @ b"
    proof cases
      case 1
      then obtain b where "c # cs = p @ b" by (auto simp: prefix_def)
      then have "c # cs = [] @ p @ b" by simp
      then show ?thesis by blast
    next
      case 2
      with Cons.IH obtain a b where "cs = a @ p @ b" by blast
      then have "c # cs = (c # a) @ p @ b" by simp
      then show ?thesis by blast
    qed
  next
    assume "\<exists>a b. c # cs = a @ p @ b"
    then obtain a b where ab: "c # cs = a @ p @ b" by blast
    show "includes_str (c # cs) p"
    proof (cases a)
      case Nil
      with ab have "prefix p (c # cs)" by (simp add: prefix_def)
      then show ?thesis by simp
    next
      case (Cons x a')
      with ab have "cs = a' @ p @ b" by simp
      with Cons.IH have "includes_str cs p" by blast
      then show ?thesis by simp
    qed
  qed
qed

lemma includes_trans: "includes_str s p \<Longrightarrow> includes_str p q \<Longrightarrow> includes_str s q"
proof -
  assume "includes_str s p" and "includes_str p q"
  then obtain a b c d where "s = a @ p @ b" and "p = c @ q @ d"
    unfolding includes_iff by blast
  then have "s = (a @ c) @ q @ (d @ b)" by simp
  then show ?thesis unfolding includes_iff by blast
qed

subsection \<open>Column resolution\<close>

lemma findColumn_Some_iff:
  "findColumn keys patterns = Some k \<longleftrightarrow>
     (\<exists>i < length keys. keys ! i = k \<and> matchesAny patterns (keys ! i) \<and>
        (\<forall>j < i. \<not> matchesAny patterns (keys ! j)))"
  unfolding findColumn_def find_Some_iff by blast

lemma findColumn_None_iff:
  "findColumn keys patterns = None \<longleftrightarrow> (\<forall>k \<in> set keys. \<not> matchesAny patterns k)"
  unfolding findColumn_def find_None_iff by blast

lemma matchesAny_iff:
  "matchesAny patterns k \<longleftrightarrow> (\<exists>p \<in> set patterns. includes_str (toLowerCase k) (toLowerCase p))"
  by (simp add: matchesAny_def list_ex_iff)

text \<open>
  Both longer flow synonyms contain \<open>flow\<close>, so a header matches the flow patterns exactly
  when its lowercased text contains \<open>flow\<close>.
\<close>

lemma matchesAny_flow: "matchesAny flowPatterns k \<longleftrightarrow> includes_str (toLowerCase k) (str ''flow'')"
proof -
  have lc: "toLowerCase (str ''flowrate'') = str ''flowrate''" "toLowerCase (str ''flow rate'') = str ''flow rate''"
    "toLowerCase (str ''flow'') = str ''flow''"
    by code_simp+
  have sub: "includes_str (str ''flowrate'') (str ''flow'')" "includes_str (str ''flow rate'') (str ''flow'')"
    by code_simp+
  show ?thesis
    unfolding matchesAny_iff flowPatterns_def
    using sub includes_trans by (auto simp: lc)
qed

text \<open>
  C7. For every header list with at least one header whose lowercased text contains
  \<open>flow\<close>, the flowrate column is resolved to the first such header in header order: it
  is the header at some position \<open>i\<close>, it contains \<open>flow\<close>, and no header before
  position \<open>i\<close> does.
\<close>

theorem flow_header_first:
  assumes "\<exists>k \<in> set keys. includes_str (toLowerCase k) (str ''flow'')"
  shows "\<exists>i < length keys.
           flowCol (resolveColumns keys) = Some (keys ! i) \<and>
           includes_str (toLowerCase (keys ! i)) (str ''flow'') \<and>
           (\<forall>j < i. \<not> includes_str (toLowerCase (keys ! j)) (str ''flow''))"
proof -
  from assms have "findColumn keys flowPatterns \<noteq> None"
    by (simp add: findColumn_None_iff matchesAny_flow)
  then obtain k where "findColumn keys flowPatterns = Some k" by blast
  then obtain i where "i < length keys" "keys ! i = k"
    "includes_str (toLowerCase (keys ! i)) (str ''flow'')"
    "\<forall>j < i. \<not> includes_str (toLowerCase (keys ! j)) (str ''flow'')"
    unfolding findColumn_Some_iff matchesAny_flow by blast
  moreover have "flowCol (resolveColumns keys) = findColumn keys flowPatterns"
    by (simp add: resolveColumns_def)
  ultimately show ?thesis
    using \<open>findColumn keys flowPatterns = Some k\<close> by auto
qed

text \<open>With headers \<open>Name, Flow Rate, Flowrate\<close> the second header is selected.\<close>

theorem flow_header_first_witness:
  "flowCol (resolveColumns [str ''Name'', str ''Flow Rate'', str ''Flowrate'']) = Some (str ''Flow Rate'')"
proof -
  let ?ks = "[str ''Name'', str ''Flow Rate'', str ''Flowrate'']"
  have ex: "\<exists>k \<in> set ?ks. includes_str (toLowerCase k) (str ''flow'')" by code_simp
  have n0: "\<not> includes_str (toLowerCase (?ks ! 0)) (str ''flow'')" by code_simp
  have y1: "?ks ! 1 = str ''Flow Rate''" by simp
  from flow_header_first [OF ex] obtain i where i: "i < length ?ks"
    "flowCol (resolveColumns ?ks) = Some (?ks ! i)"
    "includes_str (toLowerCase (?ks ! i)) (str ''flow'')"
    "\<forall>j < i. \<not> includes_str (toLowerCase (?ks ! j)) (str ''flow'')" by blast
  have y1f: "includes_str (toLowerCase (?ks ! 1)) (str ''flow'')" by code_simp
  have "i \<noteq> 0" using i(3) n0 by (cases "i = 0") simp_all
  moreover have "\<not> 1 < i" using i(4) y1f by blast
  ultimately have "i = 1" by simp
  with i(2) y1 show ?thesis by simp
qed

text \<open>
  C2 (as stated, refuted). With headers \<open>Equipment, Equipment Name\<close> the code selects
  \<open>Equipment\<close>, the first header containing any name synonym, whereas resolution in
  synonym order selects \<open>Equipment Name\<close>, the header containing the first synonym.
\<close>

theorem synonym_order_counterexample:
  "findColumn [str ''Equipment'', str ''Equipment Name''] namePatterns = Some (str ''Equipment'') \<and>
   findColumnBySynonymOrder [str ''Equipment'', str ''Equipment Name''] namePatterns
     = Some (str ''Equipment Name'')"
  by code_simp

text \<open>
  C2 (amended). For every header list and every pattern list, the selected header is the
  first header in header order whose lowercased text contains any of the lowercased
  patterns; the order of the patterns in their list has no influence on the selection.
\<close>

theorem findColumn_first_matching_header:
  "(findColumn keys patterns = Some k \<longleftrightarrow>
      (\<exists>i < length keys. keys ! i = k \<and>
         (\<exists>p \<in> set patterns. includes_str (toLowerCase (keys ! i)) (toLowerCase p)) \<and>
         (\<forall>j < i. \<forall>p \<in> set patterns. \<not> includes_str (toLowerCase (keys ! j)) (toLowerCase p)))) \<and>
   (set patterns' = set patterns \<longrightarrow> findColumn keys patterns' = findColumn keys patterns)"
proof
  show "findColumn keys patterns = Some k \<longleftrightarrow>
      (\<exists>i < length keys. keys ! i = k \<and>
         (\<exists>p \<in> set patterns. includes_str (toLowerCase (keys ! i)) (toLowerCase p)) \<and>
         (\<forall>j < i. \<forall>p \<in> set patterns. \<not> includes_str (toLowerCase (keys ! j)) (toLowerCase p)))"
    unfolding findColumn_Some_iff matchesAny_iff by blast
next
  show "set patterns' = set patterns \<longrightarrow> findColumn keys patterns' = findColumn keys patterns"
  proof
    assume "set patterns' = set patterns"
    then have "matchesAny patterns' = matchesAny patterns"
      by (auto simp: matchesAny_iff fun_eq_iff)
    then show "findColumn keys patterns' = findColumn keys patterns"
      by (simp add: findColumn_def)
  qed
qed

theorem findColumn_first_matching_header_witness:
  "findColumn [str ''Equipment'', str ''Equipment Name''] namePatterns = Some (str ''Equipment'') \<and>
   findColumn [str ''Equipment'', str ''Equipment Name''] (rev namePatterns) = Some (str ''Equipment'')"
proof -
  let ?ks = "[str ''Equipment'', str ''Equipment Name'']"
  have a: "\<exists>i < length ?ks. ?ks ! i = str ''Equipment'' \<and>
         (\<exists>p \<in> set namePatterns. includes_str (toLowerCase (?ks ! i)) (toLowerCase p)) \<and>
         (\<forall>j < i. \<forall>p \<in> set namePatterns. \<not> includes_str (toLowerCase (?ks ! j)) (toLowerCase p))"
  proof (intro exI [of _ 0] conjI)
    show "\<exists>p \<in> set namePatterns. includes_str (toLowerCase (?ks ! 0)) (toLowerCase p)"
      by code_simp
  qed simp_all
  have b: "set (rev namePatterns) = set namePatterns" by simp
  from findColumn_first_matching_header [of ?ks namePatterns "(str ''Equipment'')" "rev namePatterns"] a b
  show ?thesis by simp
qed

text \<open>
  C3 (as stated, refuted). With headers \<open>Equipment Type, Flowrate\<close> the one header
  \<open>Equipment Type\<close> is selected both for the name and for the type: it contains the name
  synonym \<open>equipment\<close> and the type synonym \<open>type\<close>.
\<close>

theorem shared_header_counterexample:
  "nameCol (resolveColumns [str ''Equipment Type'', str ''Flowrate'']) = Some (str ''Equipment Type'') \<and>
   typeCol (resolveColumns [str ''Equipment Type'', str ''Flowrate'']) = Some (str ''Equipment Type'')"
  by code_simp

lemma findColumn_mem: "findColumn keys patterns = Some k \<Longrightarrow> k \<in> set keys"
  unfolding findColumn_Some_iff by auto

text \<open>
  C3 (amended). Each of the five fields is resolved on its own over the whole header
  list: a field is left unmapped exactly when no header matches its patterns (a result,
  not an error), and every selected header is a header of the list. Nothing keeps two
  fields from selecting the same header.
\<close>

theorem resolveColumns_fields_independent:
  "(nameCol (resolveColumns keys) = None \<longleftrightarrow> (\<forall>k \<in> set keys. \<not> matchesAny namePatterns k)) \<and>
   (typeCol (resolveColumns keys) = None \<longleftrightarrow> (\<forall>k \<in> set keys. \<not> matchesAny typePatterns k)) \<and>
   (flowCol (resolveColumns keys) = None \<longleftrightarrow> (\<forall>k \<in> set keys. \<not> matchesAny flowPatterns k)) \<and>
   (pressCol (resolveColumns keys) = None \<longleftrightarrow> (\<forall>k \<in> set keys. \<not> matchesAny pressPatterns k)) \<and>
   (tempCol (resolveColumns keys) = None \<longleftrightarrow> (\<forall>k \<in> set keys. \<not> matchesAny tempPatterns k)) \<and>
   (\<forall>k. Some k \<in> {nameCol (resolveColumns keys), typeCol (resolveColumns keys),
                    flowCol (resolveColumns keys), pressCol (resolveColumns keys),
                    tempCol (resolveColumns keys)} \<longrightarrow> k \<in> set keys)"
proof -
  have sel: "nameCol (resolveColumns keys) = findColumn keys namePatterns"
    "typeCol (resolveColumns keys) = findColumn keys typePatterns"
    "flowCol (resolveColumns keys) = findColumn keys flowPatterns"
    "pressCol (resolveColumns keys) = findColumn keys pressPatterns"
    "tempCol (resolveColumns keys) = findColumn keys tempPatterns"
    by (simp_all add: resolveColumns_def)
  have mem: "\<forall>k. Some k \<in> {findColumn keys namePatterns, findColumn keys typePatterns,
                    findColumn keys flowPatterns, findColumn keys pressPatterns,
                    findColumn keys tempPatterns} \<longrightarrow> k \<in> set keys"
    using findColumn_mem [of keys] by (metis insertE singletonD)
  show ?thesis
    unfolding sel findColumn_None_iff using mem by simp
qed

theorem resolveColumns_fields_independent_witness:
  "flowCol (resolveColumns [str ''Equipment Type'', str ''Notes'']) = None \<and>
   (str ''Equipment Type'') \<in> set [str ''Equipment Type'', str ''Notes'']"
proof -
  let ?ks = "[str ''Equipment Type'', str ''Notes'']"
  have a: "\<forall>k \<in> set ?ks. \<not> matchesAny flowPatterns k" by code_simp
  have "nameCol (resolveColumns ?ks) = Some (str ''Equipment Type'')" by code_simp
  then have b: "Some (str ''Equipment Type'') \<in> {nameCol (resolveColumns ?ks), typeCol (resolveColumns ?ks),
                    flowCol (resolveColumns ?ks), pressCol (resolveColumns ?ks),
                    tempCol (resolveColumns ?ks)}" by simp
  from resolveColumns_fields_independent [of ?ks] a b show ?thesis by blast
qed

subsection \<open>Resolution per row and per file\<close>

text \<open>
  C8. When every record of the file has the same key list \<open>headers\<close>, resolving the
  columns inside the per-row callback gives every row the mapping obtained by resolving
  once on \<open>headers\<close>: the normalised rows are the same, and so are the retained rows.
\<close>

theorem per_file_resolution_equiv:
  assumes "\<forall>row \<in> set data. map fst row = headers"
  shows "map mapRow data = map (normalizeRow (resolveColumns headers)) data \<and>
         mapped data = mappedPerFile headers data"
proof -
  from assms have eq: "map mapRow data = map (normalizeRow (resolveColumns headers)) data"
    by (simp add: mapRow_def)
  have "mapped data = filter retained (map mapRow data)"
    by (simp add: mapped_def)
  also have "\<dots> = filter retained (map (normalizeRow (resolveColumns headers)) data)"
    by (simp only: eq)
  also have "\<dots> = mappedPerFile headers data"
    by (simp add: mappedPerFile_def)
  finally show ?thesis using eq by simp
qed

theorem per_file_resolution_equiv_witness:
  "mapped [[(str ''Name'', str ''P1''), (str ''Temp'', str ''80'')], [(str ''Name'', str '' ''), (str ''Temp'', str ''x'')]]
     = mappedPerFile [str ''Name'', str ''Temp'']
         [[(str ''Name'', str ''P1''), (str ''Temp'', str ''80'')], [(str ''Name'', str '' ''), (str ''Temp'', str ''x'')]]"
proof -
  let ?d = "[[(str ''Name'', str ''P1''), (str ''Temp'', str ''80'')], [(str ''Name'', str '' ''), (str ''Temp'', str ''x'')]]"
  have "\<forall>row \<in> set ?d. map fst row = [str ''Name'', str ''Temp'']" by simp
  from per_file_resolution_equiv [OF this] show ?thesis by blast
qed

subsection \<open>Text fields\<close>

lemma trim_Nil_iff: "trim v = [] \<longleftrightarrow> (\<forall>c \<in> set v. isWhiteSpace c)"
proof -
  have "trim v = [] \<longleftrightarrow> dropWhile isWhiteSpace (rev (dropWhile isWhiteSpace v)) = []"
    by (simp add: trim_def)
  also have "\<dots> \<longleftrightarrow> (\<forall>c \<in> set (dropWhile isWhiteSpace v). isWhiteSpace c)"
    by (simp add: dropWhile_eq_Nil_conv)
  also have "\<dots> \<longleftrightarrow> (\<forall>c \<in> set v. isWhiteSpace c)"
  proof
    assume a: "\<forall>c \<in> set (dropWhile isWhiteSpace v). isWhiteSpace c"
    have "dropWhile isWhiteSpace v = []"
    proof (rule ccontr)
      assume "dropWhile isWhiteSpace v \<noteq> []"
      then have "\<not> isWhiteSpace (hd (dropWhile isWhiteSpace v))"
        "hd (dropWhile isWhiteSpace v) \<in> set (dropWhile isWhiteSpace v)"
        by (simp_all add: hd_dropWhile)
      with a show False by blast
    qed
    then show "\<forall>c \<in> set v. isWhiteSpace c" by (simp add: dropWhile_eq_Nil_conv)
  next
    assume "\<forall>c \<in> set v. isWhiteSpace c"
    then show "\<forall>c \<in> set (dropWhile isWhiteSpace v). isWhiteSpace c"
      using set_dropWhileD by fast
  qed
  finally show ?thesis .
qed

lemma trim_trimmed: "trim v \<noteq> [] \<Longrightarrow> trimmedNonEmpty (trim v)"
proof -
  assume ne: "trim v \<noteq> []"
  define t where "t = dropWhile isWhiteSpace v"
  define u where "u = dropWhile isWhiteSpace (rev t)"
  have tr: "trim v = rev u" by (simp add: trim_def t_def u_def)
  with ne have u: "u \<noteq> []" by simp
  then have hu: "\<not> isWhiteSpace (hd u)" unfolding u_def by (simp add: hd_dropWhile)
  from u have t: "t \<noteq> []" unfolding u_def by auto
  then have ht: "\<not> isWhiteSpace (hd t)" unfolding t_def by (simp add: hd_dropWhile)
  have "rev t = takeWhile isWhiteSpace (rev t) @ u" by (simp add: u_def)
  with u have "last (rev t) = last u" by (metis last_appendR)
  with t have "last u = hd t" by (simp add: last_rev)
  with u have "hd (rev u) = hd t" by (simp add: hd_rev)
  moreover from u have "last (rev u) = hd u" by (simp add: last_rev)
  ultimately show ?thesis using ne hu ht by (simp add: trimmedNonEmpty_def tr)
qed

lemma trimmed_Unknown: "trimmedNonEmpty (str ''Unknown'')"
  by code_simp

lemma textField_trimmed: "trimmedNonEmpty (textField row col)"
  by (auto simp: textField_def trimmed_Unknown trim_trimmed split: option.splits)

lemma matchesAny_nonempty:
  assumes "[] \<notin> set patterns" and "matchesAny patterns k"
  shows "k \<noteq> []"
proof
  assume "k = []"
  with assms(2) obtain p where "p \<in> set patterns" "toLowerCase p = []"
    by (auto simp: matchesAny_iff toLowerCase_def)
  with assms(1) show False by (auto simp: toLowerCase_def)
qed

lemma findColumn_nonempty:
  "[] \<notin> set patterns \<Longrightarrow> findColumn keys patterns = Some k \<Longrightarrow> k \<noteq> []"
  unfolding findColumn_Some_iff using matchesAny_nonempty by blast

lemma patterns_nonempty:
  "[] \<notin> set namePatterns" "[] \<notin> set typePatterns" "[] \<notin> set flowPatterns"
  "[] \<notin> set pressPatterns" "[] \<notin> set tempPatterns"
  by (simp_all add: namePatterns_def typePatterns_def flowPatterns_def pressPatterns_def
      tempPatterns_def str_def)

lemma mapRow_sel:
  "equipment_name (mapRow row) = textField row (findColumn (map fst row) namePatterns)"
  "equipment_type (mapRow row) = textField row (findColumn (map fst row) typePatterns)"
  "flowrate (mapRow row) = numField row (findColumn (map fst row) flowPatterns)"
  "pressure (mapRow row) = numField row (findColumn (map fst row) pressPatterns)"
  "temperature (mapRow row) = numField row (findColumn (map fst row) tempPatterns)"
  by (simp_all add: mapRow_def normalizeRow_def resolveColumns_def Let_def)

lemma textField_found:
  assumes "[] \<notin> set patterns"
  shows "textField row (findColumn keys patterns) =
     (case findColumn keys patterns of
        None \<Rightarrow> (str ''Unknown'')
      | Some k \<Rightarrow> (case map_of row k of
                     None \<Rightarrow> (str ''Unknown'')
                   | Some v \<Rightarrow> if \<forall>c \<in> set v. isWhiteSpace c then (str ''Unknown'') else trim v))"
  using findColumn_nonempty [OF assms]
  by (auto simp: textField_def trim_Nil_iff split: option.splits)

lemma retentionStep_equipment:
  "set (equipment_data (retentionStep env uid st)) \<subseteq> set (equipment_data st)"
  by (auto simp: retentionStep_def deleteUploads_def split: option.splits)

lemma handleUpload_equipment:
  assumes "e \<in> set (equipment_data (fst (handleUpload env user file parsedData st)))"
  shows "e \<in> set (equipment_data st) \<or> reading e \<in> set parsedData"
proof (cases user)
  case None
  with assms show ?thesis by (simp add: handleUpload_def)
next
  case (Some uid)
  note u = this
  show ?thesis
  proof (cases "file")
    case None
    with assms u show ?thesis by (simp add: handleUpload_def)
  next
    case (Some fname)
    with assms u retentionStep_equipment [of env uid st] show ?thesis
      by (auto simp: handleUpload_def Let_def split: if_splits)
  qed
qed

text \<open>
  C10. Every retained row has an equipment name and an equipment type that are non-empty
  and carry no leading or trailing white space. Each of the two fields is the sentinel
  \<open>Unknown\<close> when no header is selected, when the record has no value under the selected
  header, or when the raw value is empty or consists of white space only; otherwise it is
  the raw value trimmed. The equipment rows that a confirmation adds to the store carry
  the retained rows unchanged, so their two fields have the same property; and the table
  declares the columns \<^verbatim>\<open>equipment_name\<close> and \<^verbatim>\<open>equipment_type\<close> as
  \<^verbatim>\<open>TEXT NOT NULL\<close>.
\<close>

theorem identity_fields_trimmed_nonempty:
  "(\<forall>r \<in> set (mapped data).
      trimmedNonEmpty (equipment_name r) \<and> trimmedNonEmpty (equipment_type r)) \<and>
   equipment_name (mapRow row) =
     (case findColumn (map fst row) namePatterns of
        None \<Rightarrow> str ''Unknown''
      | Some k \<Rightarrow> (case map_of row k of
                     None \<Rightarrow> str ''Unknown''
                   | Some v \<Rightarrow> if \<forall>c \<in> set v. isWhiteSpace c then str ''Unknown'' else trim v)) \<and>
   equipment_type (mapRow row) =
     (case findColumn (map fst row) typePatterns of
        None \<Rightarrow> str ''Unknown''
      | Some k \<Rightarrow> (case map_of row k of
                     None \<Rightarrow> str ''Unknown''
                   | Some v \<Rightarrow> if \<forall>c \<in> set v. isWhiteSpace c then str ''Unknown'' else trim v)) \<and>
   (\<forall>e \<in> set (equipment_data (fst (handleUpload env user file (mapped data) st))).
      e \<in> set (equipment_data st) \<or>
      trimmedNonEmpty (equipment_name (reading e)) \<and>
      trimmedNonEmpty (equipment_type (reading e))) \<and>
   List.find (\<lambda>c. col_name c = ''equipment_name'') equipment_data_columns
     = Some \<lparr> col_name = ''equipment_name'', col_type = ''TEXT'', not_null = True \<rparr> \<and>
   List.find (\<lambda>c. col_name c = ''equipment_type'') equipment_data_columns
     = Some \<lparr> col_name = ''equipment_type'', col_type = ''TEXT'', not_null = True \<rparr>"
proof -
  have A: "\<forall>r \<in> set (mapped data).
      trimmedNonEmpty (equipment_name r) \<and> trimmedNonEmpty (equipment_type r)"
    by (auto simp: mapped_def mapRow_sel textField_trimmed)
  have B: "equipment_name (mapRow row) =
     (case findColumn (map fst row) namePatterns of
        None \<Rightarrow> str ''Unknown''
      | Some k \<Rightarrow> (case map_of row k of
                     None \<Rightarrow> str ''Unknown''
                   | Some v \<Rightarrow> if \<forall>c \<in> set v. isWhiteSpace c then str ''Unknown'' else trim v))"
    by (simp only: mapRow_sel textField_found [OF patterns_nonempty(1)])
  have C: "equipment_type (mapRow row) =
     (case findColumn (map fst row) typePatterns of
        None \<Rightarrow> str ''Unknown''
      | Some k \<Rightarrow> (case map_of row k of
                     None \<Rightarrow> str ''Unknown''
                   | Some v \<Rightarrow> if \<forall>c \<in> set v. isWhiteSpace c then str ''Unknown'' else trim v))"
    by (simp only: mapRow_sel textField_found [OF patterns_nonempty(2)])
  have D: "\<forall>e \<in> set (equipment_data (fst (handleUpload env user file (mapped data) st))).
      e \<in> set (equipment_data st) \<or>
      trimmedNonEmpty (equipment_name (reading e)) \<and>
      trimmedNonEmpty (equipment_type (reading e))"
    using handleUpload_equipment [of _ env user "file" "mapped data" st] A by blast
  have E: "List.find (\<lambda>c. col_name c = ''equipment_name'') equipment_data_columns
     = Some \<lparr> col_name = ''equipment_name'', col_type = ''TEXT'', not_null = True \<rparr>"
    by (simp add: equipment_data_columns_def)
  have F: "List.find (\<lambda>c. col_name c = ''equipment_type'') equipment_data_columns
     = Some \<lparr> col_name = ''equipment_type'', col_type = ''TEXT'', not_null = True \<rparr>"
    by (simp add: equipment_data_columns_def)
  show ?thesis
    by (rule conjI [OF A conjI [OF B conjI [OF C conjI [OF D conjI [OF E F]]]]])
qed

text \<open>
  A name cell wrapped in a no-break space and a line separator, and a type cell holding
  an ideographic space only.
\<close>

theorem identity_fields_trimmed_nonempty_witness:
  "equipment_name (mapRow [(str ''Name'', 0xA0 # str ''Pump-1'' @ [0x2028]),
                           (str ''Type'', [0x3000])]) = str ''Pump-1'' \<and>
   equipment_type (mapRow [(str ''Name'', 0xA0 # str ''Pump-1'' @ [0x2028]),
                           (str ''Type'', [0x3000])]) = str ''Unknown'' \<and>
   trimmedNonEmpty (equipment_name (mapRow [(str ''Name'', 0xA0 # str ''Pump-1'' @ [0x2028]),
                                            (str ''Type'', [0x3000])]))"
proof -
  let ?row = "[(str ''Name'', 0xA0 # str ''Pump-1'' @ [0x2028]), (str ''Type'', [0x3000])]"
  have n: "(case findColumn (map fst ?row) namePatterns of
        None \<Rightarrow> str ''Unknown''
      | Some k \<Rightarrow> (case map_of ?row k of
                     None \<Rightarrow> str ''Unknown''
                   | Some v \<Rightarrow> if \<forall>c \<in> set v. isWhiteSpace c then str ''Unknown'' else trim v))
      = str ''Pump-1''"
    by code_simp
  have t: "(case findColumn (map fst ?row) typePatterns of
        None \<Rightarrow> str ''Unknown''
      | Some k \<Rightarrow> (case map_of ?row k of
                     None \<Rightarrow> str ''Unknown''
                   | Some v \<Rightarrow> if \<forall>c \<in> set v. isWhiteSpace c then str ''Unknown'' else trim v))
      = str ''Unknown''"
    by code_simp
  have m: "mapRow ?row \<in> set (mapped [?row])" by code_simp
  note inst = identity_fields_trimmed_nonempty [of "[?row]" ?row]
  have 1: "equipment_name (mapRow ?row) = str ''Pump-1''"
    by (rule trans [OF inst [THEN conjunct2, THEN conjunct1] n])
  have 2: "equipment_type (mapRow ?row) = str ''Unknown''"
    by (rule trans [OF inst [THEN conjunct2, THEN conjunct2, THEN conjunct1] t])
  from inst [THEN conjunct1] m have 3: "trimmedNonEmpty (equipment_name (mapRow ?row))"
    by blast
  from 1 2 3 show ?thesis by (intro conjI)
qed

subsection \<open>The row filter\<close>

lemma retained_iff: "retained r \<longleftrightarrow> \<not> (equipment_name r = str ''Unknown'' \<and> equipment_type r = str ''Unknown'')"
  unfolding retained_def by blast

text \<open>
  C4 (as stated, refuted). In the record with the single column \<open>Type\<close> and the cell
  \<open>Unknown\<close>, the type column is the only identity column selected and its cell is not
  empty, yet the row is not retained: the trimmed cell is the sentinel itself.
\<close>

theorem sentinel_text_counterexample:
  "findColumn (map fst [(str ''Type'', str ''Unknown'')]) namePatterns = None \<and>
   findColumn (map fst [(str ''Type'', str ''Unknown'')]) typePatterns = Some (str ''Type'') \<and>
   map_of [(str ''Type'', str ''Unknown'')] (str ''Type'') = Some (str ''Unknown'') \<and>
   trim (str ''Unknown'') \<noteq> [] \<and>
   mapped [[(str ''Type'', str ''Unknown'')]] = []"
  by code_simp

text \<open>
  C4 (amended). A normalised row is retained exactly when it is not the case that both
  its equipment name and its equipment type are the sentinel \<open>Unknown\<close>. Hence every
  retained row has an identity field that differs from the sentinel; a row whose two
  identity fields are the sentinel (in particular one whose file has no name and no type
  column) is excluded; and a row of the data whose name is the sentinel and whose type is
  not is retained, in particular a row whose only selected identity column is the type
  column, with a cell that is non-empty after trimming and is not the text \<open>Unknown\<close>
  itself.
\<close>

theorem retained_iff_not_both_unknown:
  "(retained r \<longleftrightarrow> \<not> (equipment_name r = str ''Unknown'' \<and> equipment_type r = str ''Unknown'')) \<and>
   mapped data =
     filter (\<lambda>r. \<not> (equipment_name r = str ''Unknown'' \<and> equipment_type r = str ''Unknown''))
       (map mapRow data) \<and>
   (\<forall>r \<in> set (mapped data). equipment_name r \<noteq> str ''Unknown'' \<or> equipment_type r \<noteq> str ''Unknown'') \<and>
   (equipment_name (mapRow row) = str ''Unknown'' \<and> equipment_type (mapRow row) = str ''Unknown''
      \<longrightarrow> mapRow row \<notin> set (mapped data)) \<and>
   (findColumn (map fst row) namePatterns = None \<and> findColumn (map fst row) typePatterns = None
      \<longrightarrow> mapRow row \<notin> set (mapped data)) \<and>
   (row \<in> set data \<and> equipment_name (mapRow row) = str ''Unknown'' \<and>
    equipment_type (mapRow row) \<noteq> str ''Unknown''
      \<longrightarrow> mapRow row \<in> set (mapped data)) \<and>
   (row \<in> set data \<and> findColumn (map fst row) namePatterns = None \<and>
    findColumn (map fst row) typePatterns = Some k \<and> map_of row k = Some v \<and>
    trim v \<noteq> [] \<and> trim v \<noteq> str ''Unknown''
      \<longrightarrow> mapRow row \<in> set (mapped data) \<and> equipment_type (mapRow row) = trim v)"
proof (intro conjI impI)
  show "retained r \<longleftrightarrow> \<not> (equipment_name r = str ''Unknown'' \<and> equipment_type r = str ''Unknown'')"
    by (rule retained_iff)
  show "mapped data =
     filter (\<lambda>r. \<not> (equipment_name r = str ''Unknown'' \<and> equipment_type r = str ''Unknown''))
       (map mapRow data)"
    unfolding mapped_def using retained_iff by presburger
  show "\<forall>r \<in> set (mapped data). equipment_name r \<noteq> str ''Unknown'' \<or> equipment_type r \<noteq> str ''Unknown''"
    by (simp add: mapped_def retained_def)
next
  assume "equipment_name (mapRow row) = str ''Unknown'' \<and> equipment_type (mapRow row) = str ''Unknown''"
  then show "mapRow row \<notin> set (mapped data)"
    by (simp add: mapped_def retained_def)
next
  assume "findColumn (map fst row) namePatterns = None \<and>
          findColumn (map fst row) typePatterns = None"
  then have "equipment_name (mapRow row) = str ''Unknown''" "equipment_type (mapRow row) = str ''Unknown''"
    by (simp_all add: mapRow_sel textField_def)
  then show "mapRow row \<notin> set (mapped data)"
    by (simp add: mapped_def retained_def)
next
  assume "row \<in> set data \<and> equipment_name (mapRow row) = str ''Unknown'' \<and>
    equipment_type (mapRow row) \<noteq> str ''Unknown''"
  then show "mapRow row \<in> set (mapped data)"
    by (simp add: mapped_def retained_def)
next
  assume a: "row \<in> set data \<and> findColumn (map fst row) namePatterns = None \<and>
    findColumn (map fst row) typePatterns = Some k \<and> map_of row k = Some v \<and>
    trim v \<noteq> [] \<and> trim v \<noteq> str ''Unknown''"
  then have "k \<noteq> []" using findColumn_nonempty [OF patterns_nonempty(2)] by blast
  with a have t: "equipment_type (mapRow row) = trim v"
    by (simp add: mapRow_sel textField_def)
  with a show "mapRow row \<in> set (mapped data)"
    by (simp add: mapped_def retained_def)
  from t show "equipment_type (mapRow row) = trim v" .
qed

theorem retained_iff_not_both_unknown_witness:
  "mapRow [(str ''Type'', str ''Pump'')] \<in> set (mapped [[(str ''Type'', str ''Pump'')], [(str ''Notes'', str ''x'')]]) \<and>
   mapRow [(str ''Notes'', str ''x'')] \<notin> set (mapped [[(str ''Type'', str ''Pump'')], [(str ''Notes'', str ''x'')]]) \<and>
   equipment_type (mapRow [(str ''Type'', str ''Pump'')]) = str ''Pump''"
proof -
  let ?d = "[[(str ''Type'', str ''Pump'')], [(str ''Notes'', str ''x'')]]"
  have a: "[(str ''Type'', str ''Pump'')] \<in> set ?d \<and> findColumn (map fst [(str ''Type'', str ''Pump'')]) namePatterns = None \<and>
    findColumn (map fst [(str ''Type'', str ''Pump'')]) typePatterns = Some (str ''Type'') \<and>
    map_of [(str ''Type'', str ''Pump'')] (str ''Type'') = Some (str ''Pump'') \<and>
    trim (str ''Pump'') \<noteq> [] \<and> trim (str ''Pump'') \<noteq> str ''Unknown''"
    by code_simp
  have b: "findColumn (map fst [(str ''Notes'', str ''x'')]) namePatterns = None \<and>
     findColumn (map fst [(str ''Notes'', str ''x'')]) typePatterns = None"
    by code_simp
  have c: "trim (str ''Pump'') = str ''Pump''" by code_simp
  from retained_iff_not_both_unknown [of _ ?d "[(str ''Type'', str ''Pump'')]" "(str ''Type'')" "(str ''Pump'')"] a
  have 1: "mapRow [(str ''Type'', str ''Pump'')] \<in> set (mapped ?d)"
    "equipment_type (mapRow [(str ''Type'', str ''Pump'')]) = trim (str ''Pump'')" by blast+
  from retained_iff_not_both_unknown [of _ ?d "[(str ''Notes'', str ''x'')]"] b
  have 2: "mapRow [(str ''Notes'', str ''x'')] \<notin> set (mapped ?d)" by blast
  from 1 2 c show ?thesis by simp
qed

subsection \<open>Numeric fields\<close>

text \<open>
  C1 (the code at the failing input). The raw text \<open>0\<close> parses as the number 0, yet the
  temperature of the row with headers \<open>Name, Temp\<close> and values \<open>Pump-1, 0\<close> is null:
  \<^verbatim>\<open>parseFloat(...) || null\<close> replaces the falsy number 0 by null as it does
  \<^verbatim>\<open>NaN\<close>.
\<close>

theorem zero_reading_becomes_null:
  "parseFloat (str ''0'') = Num 0 \<and>
   temperature (mapRow [(str ''Name'', str ''Pump-1''), (str ''Temp'', str ''0'')]) = None \<and>
   mapped [[(str ''Name'', str ''Pump-1''), (str ''Temp'', str ''0'')]] =
     [\<lparr> equipment_name = str ''Pump-1'', equipment_type = str ''Unknown'', flowrate = None,
        pressure = None, temperature = None \<rparr>]"
  by code_simp

text \<open>
  What a numeric field can hold: null, a finite number other than 0, or an infinity; never
  \<^verbatim>\<open>NaN\<close> and never 0.
\<close>

lemma numField_cases:
  "numField row col = None \<or> (\<exists>q. q \<noteq> 0 \<and> numField row col = Some (Num q)) \<or>
   numField row col = Some Infinity \<or> numField row col = Some NegInfinity"
proof -
  have "orNull n = None \<or> (\<exists>q. q \<noteq> 0 \<and> orNull n = Some (Num q)) \<or>
        orNull n = Some Infinity \<or> orNull n = Some NegInfinity" for n
    by (cases n) (auto simp: orNull_def truthy_def)
  then show ?thesis
    by (auto simp: numField_def split: option.splits)
qed

subsection \<open>Summary averages\<close>

lemma avg_meanOf: "avg arr = meanOf arr"
  by (simp add: avg_def meanOf_def sumNum_def)

lemma nonNull_map_filter: "nonNull f rows = List.map_filter f rows"
  by (simp add: nonNull_def map_filter_def comp_def)

lemma exactlySummable_iff:
  "exactlySummable qs \<longleftrightarrow>
     (\<forall>n \<le> length qs. roundDouble (sum_list (take n qs)) = Num (sum_list (take n qs)))"
  by (auto simp: exactlySummable_def list_all_iff less_Suc_eq_le)

lemma exactlySummable_butlast: "exactlySummable (qs @ [q]) \<Longrightarrow> exactlySummable qs"
  unfolding exactlySummable_iff
proof (intro allI impI)
  fix n
  assume a: "\<forall>n \<le> length (qs @ [q]).
      roundDouble (sum_list (take n (qs @ [q]))) = Num (sum_list (take n (qs @ [q])))"
    and n: "n \<le> length qs"
  from n have "take n (qs @ [q]) = take n qs" by simp
  moreover from n have "n \<le> length (qs @ [q])" by simp
  ultimately show "roundDouble (sum_list (take n qs)) = Num (sum_list (take n qs))"
    using a by metis
qed

lemma sumNum_exact: "exactlySummable qs \<Longrightarrow> sumNum (map Num qs) = Num (sum_list qs)"
proof (induction qs rule: rev_induct)
  case Nil
  then show ?case by (simp add: sumNum_def)
next
  case (snoc q qs)
  from snoc.prems have "exactlySummable qs" by (rule exactlySummable_butlast)
  with snoc.IH have ih: "sumNum (map Num qs) = Num (sum_list qs)" by simp
  from snoc.prems have "roundDouble (sum_list (take (length (qs @ [q])) (qs @ [q])))
      = Num (sum_list (take (length (qs @ [q])) (qs @ [q])))"
    unfolding exactlySummable_iff by blast
  then have r: "roundDouble (sum_list qs + q) = Num (sum_list qs + q)" by simp
  have "sumNum (map Num (qs @ [q])) = addNum (sumNum (map Num qs)) (Num q)"
    by (simp add: sumNum_def)
  also have "\<dots> = roundDouble (sum_list qs + q)" by (simp add: ih)
  also have "\<dots> = Num (sum_list (qs @ [q]))" using r by simp
  finally show ?case .
qed

lemma meanOf_exact:
  assumes "exactlySummable qs"
  shows "meanOf (map Num qs)
           = (if length qs = 0 then Num 0 else roundDouble (sum_list qs / of_nat (length qs)))"
  using sumNum_exact [OF assms] by (simp add: meanOf_def)

text \<open>
  C5. For every row sequence and each numeric field, the average in the summary is the
  sum of the field's non-null values divided by their count, and 0 when there is none;
  sum and quotient are those of the language's numbers (binary64): the values are added
  in row order starting from 0, each sum rounded, and the quotient is rounded. When the
  non-null values are finite numbers \<open>qs\<close> whose running sums need no rounding, the
  average is the exact mean \<open>sum_list qs / length qs\<close> rounded once. Over flowrates
  10, null, 20 it is 15, and over null, null it is 0.
\<close>

theorem summary_averages:
  "avgFlowrate (computeSummary rows) = meanOf (List.map_filter flowrate rows) \<and>
   avgPressure (computeSummary rows) = meanOf (List.map_filter pressure rows) \<and>
   avgTemperature (computeSummary rows) = meanOf (List.map_filter temperature rows) \<and>
   (List.map_filter flowrate rows = map Num qs \<and> exactlySummable qs \<longrightarrow>
      avgFlowrate (computeSummary rows)
        = (if length qs = 0 then Num 0 else roundDouble (sum_list qs / of_nat (length qs)))) \<and>
   (List.map_filter pressure rows = map Num qs \<and> exactlySummable qs \<longrightarrow>
      avgPressure (computeSummary rows)
        = (if length qs = 0 then Num 0 else roundDouble (sum_list qs / of_nat (length qs)))) \<and>
   (List.map_filter temperature rows = map Num qs \<and> exactlySummable qs \<longrightarrow>
      avgTemperature (computeSummary rows)
        = (if length qs = 0 then Num 0 else roundDouble (sum_list qs / of_nat (length qs))))"
proof -
  have f: "avgFlowrate (computeSummary rows) = meanOf (List.map_filter flowrate rows)"
    by (simp add: computeSummary_def avg_meanOf nonNull_map_filter)
  have p: "avgPressure (computeSummary rows) = meanOf (List.map_filter pressure rows)"
    by (simp add: computeSummary_def avg_meanOf nonNull_map_filter)
  have t: "avgTemperature (computeSummary rows) = meanOf (List.map_filter temperature rows)"
    by (simp add: computeSummary_def avg_meanOf nonNull_map_filter)
  have f': "List.map_filter flowrate rows = map Num qs \<and> exactlySummable qs \<longrightarrow>
      avgFlowrate (computeSummary rows)
        = (if length qs = 0 then Num 0 else roundDouble (sum_list qs / of_nat (length qs)))"
    using f meanOf_exact [of qs] by simp
  have p': "List.map_filter pressure rows = map Num qs \<and> exactlySummable qs \<longrightarrow>
      avgPressure (computeSummary rows)
        = (if length qs = 0 then Num 0 else roundDouble (sum_list qs / of_nat (length qs)))"
    using p meanOf_exact [of qs] by simp
  have t': "List.map_filter temperature rows = map Num qs \<and> exactlySummable qs \<longrightarrow>
      avgTemperature (computeSummary rows)
        = (if length qs = 0 then Num 0 else roundDouble (sum_list qs / of_nat (length qs)))"
    using t meanOf_exact [of qs] by simp
  show ?thesis
    by (rule conjI [OF f conjI [OF p conjI [OF t conjI [OF f' conjI [OF p' t']]]]])
qed

text \<open>The two examples: 10, null, 20 and null, null.\<close>

theorem summary_averages_witness:
  "avgFlowrate (computeSummary
      [\<lparr> equipment_name = str ''P1'', equipment_type = str ''Pump'', flowrate = Some (Num 10),
          pressure = None, temperature = None \<rparr>,
       \<lparr> equipment_name = str ''P2'', equipment_type = str ''Pump'', flowrate = None,
          pressure = None, temperature = None \<rparr>,
       \<lparr> equipment_name = str ''P3'', equipment_type = str ''Pump'', flowrate = Some (Num 20),
          pressure = None, temperature = None \<rparr>]) = Num 15 \<and>
   avgFlowrate (computeSummary
      [\<lparr> equipment_name = str ''P1'', equipment_type = str ''Pump'', flowrate = None,
          pressure = None, temperature = None \<rparr>,
       \<lparr> equipment_name = str ''P2'', equipment_type = str ''Pump'', flowrate = None,
          pressure = None, temperature = None \<rparr>]) = Num 0"
proof -
  let ?r = "\<lambda>n f. \<lparr> equipment_name = n, equipment_type = str ''Pump'', flowrate = f,
          pressure = None, temperature = None \<rparr>"
  let ?a = "[?r (str ''P1'') (Some (Num 10)), ?r (str ''P2'') None, ?r (str ''P3'') (Some (Num 20))]"
  let ?b = "[?r (str ''P1'') None, ?r (str ''P2'') None]"
  have a: "List.map_filter flowrate ?a = map Num [10, 20] \<and> exactlySummable [10, 20]"
  proof
    show "List.map_filter flowrate ?a = map Num [10, 20]" by (simp add: map_filter_def)
    show "exactlySummable [10, 20]" by code_simp
  qed
  have b: "List.map_filter flowrate ?b = map Num [] \<and> exactlySummable []"
  proof
    show "List.map_filter flowrate ?b = map Num []" by (simp add: map_filter_def)
    show "exactlySummable []" by code_simp
  qed
  have q: "roundDouble (sum_list [10, 20] / of_nat (length [10, 20 :: rat])) = Num 15"
    by code_simp
  have "avgFlowrate (computeSummary ?a)
          = (if length [10, 20 :: rat] = 0 then Num 0
             else roundDouble (sum_list [10, 20] / of_nat (length [10, 20 :: rat])))"
    by (rule summary_averages [of ?a "[10, 20]", THEN conjunct2, THEN conjunct2,
          THEN conjunct2, THEN conjunct1, THEN mp, OF a])
  then have 1: "avgFlowrate (computeSummary ?a) = Num 15" using q by simp
  have "avgFlowrate (computeSummary ?b)
          = (if length ([] :: rat list) = 0 then Num 0
             else roundDouble (sum_list [] / of_nat (length ([] :: rat list))))"
    by (rule summary_averages [of ?b "[]", THEN conjunct2, THEN conjunct2,
          THEN conjunct2, THEN conjunct1, THEN mp, OF b])
  then have 2: "avgFlowrate (computeSummary ?b) = Num 0" by simp
  from 1 2 show ?thesis by (intro conjI)
qed

text \<open>
  Rounding is visible in an average: the mean of the numbers written \<open>0.1\<close> and \<open>0.2\<close>
  is the number written \<open>0.15000000000000002\<close>.
\<close>

lemma avg_rounds:
  "avg [parseFloat (str ''0.1''), parseFloat (str ''0.2'')]
     = parseFloat (str ''0.15000000000000002'')"
  by code_simp

subsection \<open>Retention\<close>

lemma filter_not_in_drop:
  "distinct xs \<Longrightarrow> filter (\<lambda>x. x \<notin> set (drop n xs)) xs = take n xs"
proof (induction xs arbitrary: n)
  case Nil
  then show ?case by simp
next
  case (Cons x xs)
  show ?case
  proof (cases n)
    case 0
    then show ?thesis by (auto simp: filter_empty_conv)
  next
    case (Suc m)
    from Cons.prems have fx: "x \<notin> set xs" and d: "distinct xs" by simp_all
    from fx have "x \<notin> set (drop m xs)" by (meson in_set_dropD)
    with Cons.IH [OF d, of m] Suc show ?thesis by simp
  qed
qed

lemma mostRecentFirst_mset: "mset (mostRecentFirst uid st) = mset (userUploads uid st)"
  by (simp add: mostRecentFirst_def)

lemma mostRecentFirst_set: "set (mostRecentFirst uid st) = set (userUploads uid st)"
  by (simp add: mostRecentFirst_def)

lemma mostRecentFirst_length: "length (mostRecentFirst uid st) = length (userUploads uid st)"
  by (simp add: mostRecentFirst_def)

lemma mostRecentFirst_sorted:
  assumes "i \<le> j" and "j < length (mostRecentFirst uid st)"
  shows "created_at (mostRecentFirst uid st ! j) \<le> created_at (mostRecentFirst uid st ! i)"
proof -
  let ?q = "mostRecentFirst uid st"
  have "sorted (map (\<lambda>u. - created_at u) ?q)"
    unfolding mostRecentFirst_def by (rule sorted_sort_key)
  then have "map (\<lambda>u. - created_at u) ?q ! i \<le> map (\<lambda>u. - created_at u) ?q ! j"
    using assms by (intro sorted_nth_mono) simp_all
  moreover from assms have "i < length ?q" by simp
  ultimately show ?thesis using assms(2) by simp
qed

lemma mostRecentFirst_distinct:
  assumes "distinct (map upload_id (uploads st))"
  shows "distinct (map upload_id (mostRecentFirst uid st))"
proof -
  from assms have "distinct (map upload_id (userUploads uid st))"
    by (simp add: userUploads_def distinct_map_filter)
  moreover have "mset (map upload_id (mostRecentFirst uid st)) = mset (map upload_id (userUploads uid st))"
    by (simp add: mostRecentFirst_mset)
  ultimately show ?thesis by (metis mset_eq_imp_distinct_iff)
qed


lemma uploads_handleUpload:
  assumes "insert_upload_ok env" and "parsedData \<noteq> []"
  shows "uploads (fst (handleUpload env (Some uid) (Some fname) parsedData st)) =
           uploads (retentionStep env uid st) @
             [\<lparr> upload_id = new_id env, user_id = uid, filename = fname,
                record_count = length parsedData,
                summary = computeSummary parsedData, created_at = now env \<rparr>]"
  using assms by (simp add: handleUpload_def Let_def)

lemma retentionStep_deletes:
  assumes "select_ok env" and "delete_ok env"
    and ids: "distinct (map upload_id (uploads st))"
    and five: "5 \<le> length (userUploads uid st)"
  shows "uploads (retentionStep env uid st) =
           filter (\<lambda>u. u \<notin> set (drop 4 (mostRecentFirst uid st))) (uploads st)"
proof -
  let ?q = "mostRecentFirst uid st"
  have sub: "set ?q \<subseteq> set (uploads st)"
    by (auto simp: mostRecentFirst_set userUploads_def)
  have inj: "inj_on upload_id (set (uploads st))"
    using ids by (simp add: distinct_map)
  have eq: "(upload_id u \<in> set (drop 4 (map upload_id ?q)) \<and> user_id u = uid)
              \<longleftrightarrow> u \<in> set (drop 4 ?q)" if u: "u \<in> set (uploads st)" for u
  proof
    assume a: "upload_id u \<in> set (drop 4 (map upload_id ?q)) \<and> user_id u = uid"
    then have "upload_id u \<in> upload_id ` set (drop 4 ?q)" by (simp add: drop_map)
    then obtain v where v: "v \<in> set (drop 4 ?q)" "upload_id v = upload_id u" by auto
    from v(1) sub have "v \<in> set (uploads st)" by (meson in_set_dropD subsetD)
    with inj u v(2) have "v = u" by (simp add: inj_on_def)
    with v(1) show "u \<in> set (drop 4 ?q)" by simp
  next
    assume a: "u \<in> set (drop 4 ?q)"
    then have "u \<in> set ?q" by (rule in_set_dropD)
    then have "user_id u = uid" by (simp add: mostRecentFirst_set userUploads_def)
    moreover from a have "upload_id u \<in> set (drop 4 (map upload_id ?q))"
      by (simp add: drop_map)
    ultimately show "upload_id u \<in> set (drop 4 (map upload_id ?q)) \<and> user_id u = uid" by simp
  qed
  from five have "5 \<le> length (map upload_id ?q)" by (simp add: mostRecentFirst_length)
  with assms(1,2) have "uploads (retentionStep env uid st) =
      filter (\<lambda>u. \<not> (upload_id u \<in> set (drop 4 (map upload_id ?q)) \<and> user_id u = uid))
        (uploads st)"
    by (simp add: retentionStep_def selectUploads_def deleteUploads_def)
  also have "\<dots> = filter (\<lambda>u. u \<notin> set (drop 4 ?q)) (uploads st)"
    using eq by (intro filter_cong) auto
  finally show ?thesis .
qed

lemma retentionStep_keeps:
  assumes "length (userUploads uid st) < 5"
  shows "retentionStep env uid st = st"
  using assms
  by (simp add: retentionStep_def selectUploads_def mostRecentFirst_length)

lemma userUploads_after_delete:
  assumes ids: "distinct (map upload_id (uploads st))"
  shows "mset (filter (\<lambda>u. user_id u = uid)
           (filter (\<lambda>u. u \<notin> set (drop 4 (mostRecentFirst uid st))) (uploads st)))
         = mset (take 4 (mostRecentFirst uid st))"
proof -
  let ?q = "mostRecentFirst uid st"
  let ?P = "\<lambda>u. u \<notin> set (drop 4 ?q)"
  have "distinct (map upload_id ?q)" using ids by (rule mostRecentFirst_distinct)
  then have dq: "distinct ?q" by (simp add: distinct_map)
  have "mset (filter (\<lambda>u. user_id u = uid) (filter ?P (uploads st)))
          = mset (filter ?P (userUploads uid st))"
    by (simp add: userUploads_def conj_commute)
  also have "\<dots> = filter_mset ?P (mset (userUploads uid st))" by simp
  also have "\<dots> = filter_mset ?P (mset ?q)" by (simp only: mostRecentFirst_mset)
  also have "\<dots> = mset (filter ?P ?q)" by simp
  also have "\<dots> = mset (take 4 ?q)" using dq by (simp only: filter_not_in_drop)
  finally show ?thesis .
qed

lemma length_of_mset_snoc: "mset xs = mset ys + {#z#} \<Longrightarrow> length xs = length ys + 1"
proof -
  assume "mset xs = mset ys + {#z#}"
  then have "mset xs = mset (ys @ [z])" by simp
  then have "length xs = length (ys @ [z])" by (rule mset_eq_length)
  then show ?thesis by simp
qed

lemma distinct_filter_eq_one:
  "distinct xs \<Longrightarrow> x \<in> set xs \<Longrightarrow> length (filter (\<lambda>u. u = x) xs) = 1"
  by (induction xs) (auto simp: filter_empty_conv)

text \<open>
  C6. When the select, the delete and the insert of the upload succeed and upload
  identifiers are unique, the confirmation of an upload works on the user's uploads
  ordered by creation time descending (\<open>q\<close>): with at least 5 of them, exactly those
  after the first 4 of \<open>q\<close> are deleted and the new upload is inserted, leaving the 4
  most recent and the new one, 5 in all; with fewer than 5 nothing is deleted. With
  exactly 5, exactly one stored upload is deleted, the last of \<open>q\<close>: it belongs to the
  user and none of the user's uploads is older; 5 uploads remain after the insert.
\<close>

theorem retention_keeps_four_most_recent:
  fixes uid :: nat and fname :: jsstring
  assumes ok: "select_ok env" "delete_ok env" "insert_upload_ok env"
    and rows: "parsedData \<noteq> []"
    and ids: "distinct (map upload_id (uploads st))"
  defines "st' \<equiv> fst (handleUpload env (Some uid) (Some fname) parsedData st)"
    and "q \<equiv> mostRecentFirst uid st"
    and "new \<equiv> \<lparr> upload_id = new_id env, user_id = uid, filename = fname,
                  record_count = length parsedData,
                  summary = computeSummary parsedData, created_at = now env \<rparr>"
  shows "mset q = mset (userUploads uid st) \<and>
         (\<forall>i j. i \<le> j \<and> j < length q \<longrightarrow> created_at (q ! j) \<le> created_at (q ! i)) \<and>
         (5 \<le> length q \<longrightarrow>
            uploads st' = filter (\<lambda>u. u \<notin> set (drop 4 q)) (uploads st) @ [new] \<and>
            mset (userUploads uid st') = mset (take 4 q) + {#new#} \<and>
            length (userUploads uid st') = 5) \<and>
         (length q < 5 \<longrightarrow> uploads st' = uploads st @ [new]) \<and>
         (length q = 5 \<longrightarrow>
            uploads st' = filter (\<lambda>u. u \<noteq> q ! 4) (uploads st) @ [new] \<and>
            length (filter (\<lambda>u. u = q ! 4) (uploads st)) = 1 \<and>
            user_id (q ! 4) = uid \<and>
            (\<forall>v \<in> set (userUploads uid st). created_at (q ! 4) \<le> created_at v) \<and>
            length (userUploads uid st') = 5)"
proof -
  have A: "mset q = mset (userUploads uid st)"
    unfolding q_def by (rule mostRecentFirst_mset)
  have B: "\<forall>i j. i \<le> j \<and> j < length q \<longrightarrow> created_at (q ! j) \<le> created_at (q ! i)"
    unfolding q_def using mostRecentFirst_sorted by blast
  have up: "uploads st' = uploads (retentionStep env uid st) @ [new]"
    unfolding st'_def new_def using ok(3) rows by (rule uploads_handleUpload)
  have unew: "user_id new = uid" by (simp add: new_def)
  have len: "length q = length (userUploads uid st)"
    by (simp add: q_def mostRecentFirst_length)
  have C: "uploads st' = filter (\<lambda>u. u \<notin> set (drop 4 q)) (uploads st) @ [new] \<and>
           mset (userUploads uid st') = mset (take 4 q) + {#new#} \<and>
           length (userUploads uid st') = 5" if five: "5 \<le> length q"
  proof -
    from five len have five': "5 \<le> length (userUploads uid st)" by simp
    from retentionStep_deletes [OF ok(1,2) ids five'] up
    have 1: "uploads st' = filter (\<lambda>u. u \<notin> set (drop 4 q)) (uploads st) @ [new]"
      by (simp add: q_def)
    have "mset (userUploads uid st')
            = mset (filter (\<lambda>u. user_id u = uid)
                 (filter (\<lambda>u. u \<notin> set (drop 4 q)) (uploads st))) + {#new#}"
      unfolding userUploads_def 1 using unew by simp
    then have 2: "mset (userUploads uid st') = mset (take 4 q) + {#new#}"
      using userUploads_after_delete [OF ids, of uid] by (simp add: q_def)
    from 2 have "length (userUploads uid st') = length (take 4 q) + 1"
      by (rule length_of_mset_snoc)
    with five have 3: "length (userUploads uid st') = 5" by simp
    from 1 2 3 show ?thesis by (intro conjI)
  qed
  have D: "uploads st' = uploads st @ [new]" if "length q < 5"
  proof -
    from that len have "length (userUploads uid st) < 5" by simp
    from retentionStep_keeps [OF this] up show ?thesis by simp
  qed
  have E: "uploads st' = filter (\<lambda>u. u \<noteq> q ! 4) (uploads st) @ [new] \<and>
            length (filter (\<lambda>u. u = q ! 4) (uploads st)) = 1 \<and>
            user_id (q ! 4) = uid \<and>
            (\<forall>v \<in> set (userUploads uid st). created_at (q ! 4) \<le> created_at v) \<and>
            length (userUploads uid st') = 5" if five: "length q = 5"
  proof -
    have "q ! 4 # drop (Suc 4) q = drop 4 q"
      using five by (intro Cons_nth_drop_Suc) simp
    moreover have "drop (Suc 4) q = []" using five by simp
    ultimately have d: "drop 4 q = [q ! 4]" by simp
    from C five have c: "uploads st' = filter (\<lambda>u. u \<notin> set (drop 4 q)) (uploads st) @ [new]"
      "length (userUploads uid st') = 5" by simp_all
    from c(1) d have 1: "uploads st' = filter (\<lambda>u. u \<noteq> q ! 4) (uploads st) @ [new]" by simp
    from five have mem: "q ! 4 \<in> set q" by simp
    then have memu: "q ! 4 \<in> set (userUploads uid st)"
      by (simp add: q_def mostRecentFirst_set)
    then have 3: "user_id (q ! 4) = uid" and mems: "q ! 4 \<in> set (uploads st)"
      by (simp_all add: userUploads_def)
    from ids have "distinct (uploads st)" by (simp add: distinct_map)
    with mems have 2: "length (filter (\<lambda>u. u = q ! 4) (uploads st)) = 1"
      by (intro distinct_filter_eq_one)
    have 4: "\<forall>v \<in> set (userUploads uid st). created_at (q ! 4) \<le> created_at v"
    proof
      fix v assume "v \<in> set (userUploads uid st)"
      then have "v \<in> set q" by (simp add: q_def mostRecentFirst_set)
      then obtain i where i: "i < length q" "q ! i = v" by (auto simp: in_set_conv_nth)
      with five have "i \<le> 4" by simp
      with B five have "created_at (q ! 4) \<le> created_at (q ! i)" by simp
      with i show "created_at (q ! 4) \<le> created_at v" by simp
    qed
    from 1 2 3 4 c(2) show ?thesis by (intro conjI)
  qed
  from C have C': "5 \<le> length q \<longrightarrow>
            uploads st' = filter (\<lambda>u. u \<notin> set (drop 4 q)) (uploads st) @ [new] \<and>
            mset (userUploads uid st') = mset (take 4 q) + {#new#} \<and>
            length (userUploads uid st') = 5" by (rule impI)
  from D have D': "length q < 5 \<longrightarrow> uploads st' = uploads st @ [new]" by (rule impI)
  from E have E': "length q = 5 \<longrightarrow>
            uploads st' = filter (\<lambda>u. u \<noteq> q ! 4) (uploads st) @ [new] \<and>
            length (filter (\<lambda>u. u = q ! 4) (uploads st)) = 1 \<and>
            user_id (q ! 4) = uid \<and>
            (\<forall>v \<in> set (userUploads uid st). created_at (q ! 4) \<le> created_at v) \<and>
            length (userUploads uid st') = 5" by (rule impI)
  show ?thesis by (rule conjI [OF A conjI [OF B conjI [OF C' conjI [OF D' E']]]])
qed

text \<open>
  Five uploads of user 1 with identifiers and creation times 1 to 5: the confirmation
  deletes upload 1 and inserts upload 6.
\<close>

theorem retention_keeps_four_most_recent_witness:
  "length (userUploads 1 (fst (handleUpload
      \<lparr> select_ok = True, delete_ok = True, insert_upload_ok = True, insert_rows_ok = True,
        new_id = 6, now = 6 \<rparr>
      (Some 1) (Some (str ''g.csv''))
      [\<lparr> equipment_name = str ''P1'', equipment_type = str ''Pump'', flowrate = None,
         pressure = None, temperature = None \<rparr>]
      \<lparr> uploads = map (\<lambda>i. \<lparr> upload_id = i, user_id = 1, filename = str ''f.csv'',
                               record_count = 1, summary = computeSummary [],
                               created_at = int i \<rparr>) [1, 2, 3, 4, 5],
        equipment_data = [] \<rparr>))) = 5 \<and>
   map upload_id (uploads (fst (handleUpload
      \<lparr> select_ok = True, delete_ok = True, insert_upload_ok = True, insert_rows_ok = True,
        new_id = 6, now = 6 \<rparr>
      (Some 1) (Some (str ''g.csv''))
      [\<lparr> equipment_name = str ''P1'', equipment_type = str ''Pump'', flowrate = None,
         pressure = None, temperature = None \<rparr>]
      \<lparr> uploads = map (\<lambda>i. \<lparr> upload_id = i, user_id = 1, filename = str ''f.csv'',
                               record_count = 1, summary = computeSummary [],
                               created_at = int i \<rparr>) [1, 2, 3, 4, 5],
        equipment_data = [] \<rparr>))) = [2, 3, 4, 5, 6]"
proof -
  let ?env = "\<lparr> select_ok = True, delete_ok = True, insert_upload_ok = True,
                 insert_rows_ok = True, new_id = 6, now = 6 \<rparr>"
  let ?rows = "[\<lparr> equipment_name = str ''P1'', equipment_type = str ''Pump'', flowrate = None,
         pressure = None, temperature = None \<rparr>]"
  let ?mk = "\<lambda>i. \<lparr> upload_id = i, user_id = 1, filename = str ''f.csv'',
                               record_count = 1, summary = computeSummary [],
                               created_at = int i \<rparr>"
  let ?st = "\<lparr> uploads = map ?mk [1, 2, 3, 4, 5], equipment_data = [] \<rparr>"
  let ?st' = "fst (handleUpload ?env (Some 1) (Some (str ''g.csv'')) ?rows ?st)"
  have h: "select_ok ?env" "delete_ok ?env" "insert_upload_ok ?env" "?rows \<noteq> []"
    "distinct (map upload_id (uploads ?st))"
    by simp_all
  have q: "mostRecentFirst 1 ?st = map ?mk [5, 4, 3, 2, 1]"
    by (simp add: mostRecentFirst_def userUploads_def)
  then have l: "length (mostRecentFirst 1 ?st) = 5" by simp
  note inst = retention_keeps_four_most_recent [OF h, where uid = 1 and fname = "(str ''g.csv'')",
      THEN conjunct2, THEN conjunct2, THEN conjunct2, THEN conjunct2, THEN mp, OF l]
  from inst have 1: "length (userUploads 1 ?st') = 5" by blast
  from inst have "uploads ?st' = filter (\<lambda>u. u \<noteq> mostRecentFirst 1 ?st ! 4) (uploads ?st) @
      [\<lparr> upload_id = new_id ?env, user_id = 1, filename = str ''g.csv'',
                  record_count = length ?rows,
                  summary = computeSummary ?rows, created_at = now ?env \<rparr>]" by blast
  then have 2: "map upload_id (uploads ?st') = [2, 3, 4, 5, 6]"
    unfolding q by simp
  from 1 2 show ?thesis by (intro conjI)
qed

text \<open>
  C9. The outcome of the retention step is not inspected: when the select yields no data
  or the delete fails, and the insert of the upload succeeds, nothing is deleted and the
  new upload is inserted all the same (and the confirmation reports success when the rows
  are inserted too). The user's upload count grows by one, so from 5 or more stored
  uploads it exceeds 5.
\<close>

theorem retention_failure_exceeds_cap:
  fixes uid :: nat and fname :: jsstring and st :: Store
  assumes fail: "\<not> select_ok env \<or> \<not> delete_ok env"
    and ins: "insert_upload_ok env"
    and rows: "parsedData \<noteq> []"
  defines "res \<equiv> handleUpload env (Some uid) (Some fname) parsedData st"
  shows "uploads (fst res) = uploads st @
           [\<lparr> upload_id = new_id env, user_id = uid, filename = fname,
              record_count = length parsedData,
              summary = computeSummary parsedData, created_at = now env \<rparr>] \<and>
         length (userUploads uid (fst res)) = length (userUploads uid st) + 1 \<and>
         (5 \<le> length (userUploads uid st) \<longrightarrow> 5 < length (userUploads uid (fst res))) \<and>
         (insert_rows_ok env \<longrightarrow> snd res = Succeeded (new_id env))"
proof -
  from fail have keep: "retentionStep env uid st = st"
    by (auto simp: retentionStep_def selectUploads_def deleteUploads_def)
  from uploads_handleUpload [OF ins rows, of uid fname st] keep
  have 1: "uploads (fst res) = uploads st @
           [\<lparr> upload_id = new_id env, user_id = uid, filename = fname,
              record_count = length parsedData,
              summary = computeSummary parsedData, created_at = now env \<rparr>]"
    by (simp add: res_def)
  then have 2: "length (userUploads uid (fst res)) = length (userUploads uid st) + 1"
    by (simp add: userUploads_def)
  then have 3: "5 \<le> length (userUploads uid st) \<longrightarrow> 5 < length (userUploads uid (fst res))"
    by simp
  from ins rows have 4: "insert_rows_ok env \<longrightarrow> snd res = Succeeded (new_id env)"
    by (simp add: res_def handleUpload_def Let_def)
  from 1 2 3 4 show ?thesis by (intro conjI)
qed

text \<open>With five stored uploads and a failing select, six uploads are stored afterwards.\<close>

theorem retention_failure_exceeds_cap_witness:
  "length (userUploads 1 (fst (handleUpload
      \<lparr> select_ok = False, delete_ok = True, insert_upload_ok = True, insert_rows_ok = True,
        new_id = 6, now = 6 \<rparr>
      (Some 1) (Some (str ''g.csv''))
      [\<lparr> equipment_name = str ''P1'', equipment_type = str ''Pump'', flowrate = None,
         pressure = None, temperature = None \<rparr>]
      \<lparr> uploads = map (\<lambda>i. \<lparr> upload_id = i, user_id = 1, filename = str ''f.csv'',
                               record_count = 1, summary = computeSummary [],
                               created_at = int i \<rparr>) [1, 2, 3, 4, 5],
        equipment_data = [] \<rparr>))) = 6"
proof -
  let ?env = "\<lparr> select_ok = False, delete_ok = True, insert_upload_ok = True,
                 insert_rows_ok = True, new_id = 6, now = 6 \<rparr>"
  let ?rows = "[\<lparr> equipment_name = str ''P1'', equipment_type = str ''Pump'', flowrate = None,
         pressure = None, temperature = None \<rparr>]"
  let ?mk = "\<lambda>i. \<lparr> upload_id = i, user_id = 1, filename = str ''f.csv'',
                               record_count = 1, summary = computeSummary [],
                               created_at = int i \<rparr>"
  let ?st = "\<lparr> uploads = map ?mk [1, 2, 3, 4, 5], equipment_data = [] \<rparr>"
  have h: "\<not> select_ok ?env \<or> \<not> delete_ok ?env" "insert_upload_ok ?env" "?rows \<noteq> []"
    by simp_all
  have l: "length (userUploads 1 ?st) = 5" by (simp add: userUploads_def)
  from retention_failure_exceeds_cap [OF h, where uid = 1 and fname = "(str ''g.csv'')" and st = ?st,
      THEN conjunct2, THEN conjunct1] l
  show ?thesis by simp
qed

end
